theory Spec2Isabelle
  imports Main "HOL-Library.Word" "HOL-Library.Signed_Division"
begin

unbundle bit_operations_syntax

section \<open>Tracks and vias of pcbnew/class_track.h\<close>

text \<open>
  The header declares the classes \<^verbatim>\<open>TRACK\<close>, \<^verbatim>\<open>SEGZONE\<close> and \<^verbatim>\<open>VIA\<close> and defines
  their short member functions inline. A C++ \<^verbatim>\<open>int\<close> is a 32-bit word, read as a two's
  complement number by \<open>sint\<close>; a pointer \<^verbatim>\<open>TRACK*\<close> is an optional address, \<open>None\<close> being
  \<^verbatim>\<open>NULL\<close>; a \<^verbatim>\<open>wxPoint\<close> is its pair of coordinates.
\<close>

subsection \<open>Data\<close>

type_synonym cint = "32 word"

type_synonym wxPoint = "cint \<times> cint"

type_synonym addr = nat

text \<open>\<^verbatim>\<open>enum ENDPOINT_T { ENDPOINT_START = 0, ENDPOINT_END = 1 }\<close>: a C++ enumeration is an
  integer, so a selector can hold a value that is neither of the two enumerators. The type is
  therefore the integer, and the enumerators are two of its values.\<close>

type_synonym ENDPOINT_T = cint

definition ENDPOINT_START :: ENDPOINT_T where
  "ENDPOINT_START = 0"

definition ENDPOINT_END :: ENDPOINT_T where
  "ENDPOINT_END = 1"

datatype VIATYPE_T = VIA_THROUGH | VIA_BLIND_BURIED | VIA_MICROVIA | VIA_NOT_DEFINED

text \<open>\<^verbatim>\<open>#define UNDEFINED_DRILL_DIAMETER -1\<close>\<close>

definition UNDEFINED_DRILL_DIAMETER :: cint where
  "UNDEFINED_DRILL_DIAMETER = - 1"

text \<open>The run-time type tag \<^verbatim>\<open>Type()\<close> of an item. The header names \<^verbatim>\<open>PCB_TRACE_T\<close> and
  \<^verbatim>\<open>PCB_VIA_T\<close>; the third value stands for the tag of a \<^verbatim>\<open>SEGZONE\<close>.\<close>

datatype KICAD_T = PCB_TRACE_T | PCB_VIA_T | PCB_ZONE_T

text \<open>
  The fields of a \<^verbatim>\<open>TRACK\<close>: \<^verbatim>\<open>m_Width\<close>, \<^verbatim>\<open>m_Start\<close> and \<^verbatim>\<open>m_End\<close> are declared in the
  header; the type tag, the link \<^verbatim>\<open>Pnext\<close> to the next item of the list and the net code
  are inherited from the base classes. (The auxiliary \<^verbatim>\<open>m_Param\<close> and the pointers to
  connected items play no part below.)
\<close>

record TRACK =
  m_StructType :: KICAD_T
  Pnext :: "addr option"
  m_NetCode :: int
  m_Width :: cint
  m_Start :: wxPoint
  m_End :: wxPoint

text \<open>\<^verbatim>\<open>class VIA : public TRACK\<close> adds three private fields.\<close>

record VIA = TRACK +
  m_BottomLayer :: int
  m_ViaType :: VIATYPE_T
  m_Drill :: cint

subsection \<open>Inline member functions of TRACK\<close>

text \<open>\<^verbatim>\<open>Type()\<close> and \<^verbatim>\<open>GetNetCode()\<close> are the inherited accessors of the type tag and of
  the net code.\<close>

definition Type :: "'a TRACK_scheme \<Rightarrow> KICAD_T" where
  "Type t = m_StructType t"

text \<open>\<^verbatim>\<open>TRACK* Next() const { return static_cast<TRACK*>( Pnext ); }\<close>\<close>

definition Next :: "'a TRACK_scheme \<Rightarrow> addr option" where
  "Next t = Pnext t"

definition GetNetCode :: "'a TRACK_scheme \<Rightarrow> int" where
  "GetNetCode t = m_NetCode t"

text \<open>\<^verbatim>\<open>void SetPosition( const wxPoint& aPos ) override { m_Start = aPos; }\<close>\<close>

definition TRACK_SetPosition :: "'a TRACK_scheme \<Rightarrow> wxPoint \<Rightarrow> 'a TRACK_scheme" where
  "TRACK_SetPosition t aPos = t\<lparr>m_Start := aPos\<rparr>"

text \<open>\<^verbatim>\<open>const wxPoint GetPosition() const override { return m_Start; }\<close>\<close>

definition TRACK_GetPosition :: "'a TRACK_scheme \<Rightarrow> wxPoint" where
  "TRACK_GetPosition t = m_Start t"

definition SetWidth :: "'a TRACK_scheme \<Rightarrow> cint \<Rightarrow> 'a TRACK_scheme" where
  "SetWidth t aWidth = t\<lparr>m_Width := aWidth\<rparr>"

definition GetWidth :: "'a TRACK_scheme \<Rightarrow> cint" where
  "GetWidth t = m_Width t"

definition SetEnd :: "'a TRACK_scheme \<Rightarrow> wxPoint \<Rightarrow> 'a TRACK_scheme" where
  "SetEnd t aEnd = t\<lparr>m_End := aEnd\<rparr>"

definition GetEnd :: "'a TRACK_scheme \<Rightarrow> wxPoint" where
  "GetEnd t = m_End t"

definition SetStart :: "'a TRACK_scheme \<Rightarrow> wxPoint \<Rightarrow> 'a TRACK_scheme" where
  "SetStart t aStart = t\<lparr>m_Start := aStart\<rparr>"

definition GetStart :: "'a TRACK_scheme \<Rightarrow> wxPoint" where
  "GetStart t = m_Start t"

text \<open>
  \<^verbatim>\<open>const wxPoint& GetEndPoint( ENDPOINT_T aEndPoint ) const
  { if( aEndPoint == ENDPOINT_START ) return m_Start; else return m_End; }\<close>
\<close>

definition GetEndPoint :: "'a TRACK_scheme \<Rightarrow> ENDPOINT_T \<Rightarrow> wxPoint" where
  "GetEndPoint t aEndPoint = (if aEndPoint = ENDPOINT_START then m_Start t else m_End t)"

subsection \<open>Inline member functions of VIA\<close>

text \<open>\<^verbatim>\<open>const wxPoint GetPosition() const override { return m_Start; }\<close>\<close>

definition VIA_GetPosition :: "VIA \<Rightarrow> wxPoint" where
  "VIA_GetPosition v = m_Start v"

text \<open>\<^verbatim>\<open>void SetPosition( const wxPoint& aPoint ) override { m_Start = aPoint; m_End = aPoint; }\<close>\<close>

definition VIA_SetPosition :: "VIA \<Rightarrow> wxPoint \<Rightarrow> VIA" where
  "VIA_SetPosition v aPoint = v\<lparr>m_Start := aPoint, m_End := aPoint\<rparr>"

definition SetDrill :: "VIA \<Rightarrow> cint \<Rightarrow> VIA" where
  "SetDrill v aDrill = v\<lparr>m_Drill := aDrill\<rparr>"

definition GetDrill :: "VIA \<Rightarrow> cint" where
  "GetDrill v = m_Drill v"

text \<open>\<^verbatim>\<open>void SetDrillDefault() { m_Drill = UNDEFINED_DRILL_DIAMETER; }\<close>\<close>

definition SetDrillDefault :: "VIA \<Rightarrow> VIA" where
  "SetDrillDefault v = v\<lparr>m_Drill := UNDEFINED_DRILL_DIAMETER\<rparr>"

text \<open>\<^verbatim>\<open>bool IsDrillDefault() const { return m_Drill <= 0; }\<close>: a signed comparison.\<close>

definition IsDrillDefault :: "VIA \<Rightarrow> bool" where
  "IsDrillDefault v = (m_Drill v \<le>s 0)"

subsection \<open>The linked list of tracks and vias\<close>

text \<open>
  The items of a board's track list are objects linked by \<^verbatim>\<open>Pnext\<close>. The store gives the
  object at every address. \<open>chain_from h p as\<close> says that following \<^verbatim>\<open>Next()\<close> from the
  pointer \<open>p\<close> visits exactly the addresses \<open>as\<close>, in this order, and then reaches \<^verbatim>\<open>NULL\<close>:
  the list that starts at \<open>p\<close> is well formed.
\<close>

type_synonym 'a store = "addr \<Rightarrow> 'a TRACK_scheme"

fun chain_from :: "'a store \<Rightarrow> addr option \<Rightarrow> addr list \<Rightarrow> bool" where
  "chain_from h p [] = (p = None)"
| "chain_from h p (a # as) = (p = Some a \<and> chain_from h (Next (h a)) as)"

text \<open>
  \<^verbatim>\<open>inline VIA* GetFirstVia( TRACK* aTrk, const TRACK* aStopPoint = NULL )
  {
      while( aTrk && (aTrk != aStopPoint) && (aTrk->Type() != PCB_VIA_T) )
          aTrk = aTrk->Next();
      // It could stop because of the stop point, not on a via
      if( aTrk && (aTrk->Type() == PCB_VIA_T) )
          return static_cast<VIA*>( aTrk );
      else
          return NULL;
  }\<close>
  The loop runs as long as the list goes on, so its model is a partial function: the outer
  \<open>None\<close> is a loop that never ends, \<open>Some p\<close> is the loop ending with \<^verbatim>\<open>aTrk\<close> equal to \<open>p\<close>.
\<close>

partial_function (option) GetFirstVia_while ::
  "'a store \<Rightarrow> addr option \<Rightarrow> addr option \<Rightarrow> addr option option" where
  "GetFirstVia_while h aTrk aStopPoint =
     (case aTrk of
        None \<Rightarrow> Some aTrk
      | Some a \<Rightarrow>
          if aTrk \<noteq> aStopPoint \<and> Type (h a) \<noteq> PCB_VIA_T
          then GetFirstVia_while h (Next (h a)) aStopPoint
          else Some aTrk)"

definition GetFirstVia ::
  "'a store \<Rightarrow> addr option \<Rightarrow> addr option \<Rightarrow> addr option option" where
  "GetFirstVia h aTrk aStopPoint =
     (case GetFirstVia_while h aTrk aStopPoint of
        None \<Rightarrow> None
      | Some aTrk' \<Rightarrow>
          (case aTrk' of
             None \<Rightarrow> Some None
           | Some a \<Rightarrow> if Type (h a) = PCB_VIA_T then Some (Some a) else Some None))"

section \<open>Operations declared in the header whose bodies are elsewhere\<close>

text \<open>
  \<^verbatim>\<open>GetBestInsertPoint\<close>, \<^verbatim>\<open>IsPointOnEnds\<close> and \<^verbatim>\<open>GetEndSegments\<close> are declared in
  class_track.h with a comment each; their bodies, and the list container of the board,
  are not part of the header. They are modelled on the chain as the specification
  describes it: an ordered sequence of entities, an entity being named by its position in
  the sequence, and \<open>None\<close> standing for \<^verbatim>\<open>NULL\<close>.
\<close>

subsection \<open>The chain sorted by net code\<close>

text \<open>The invariant of the specification: every entity that precedes another in the chain has
  a net code less than or equal to the later one's.\<close>

definition chain_sorted :: "'a TRACK_scheme list \<Rightarrow> bool" where
  "chain_sorted c = sorted_wrt (\<lambda>a b. GetNetCode a \<le> GetNetCode b) c"

text \<open>
  Modelled from the spec: the body of \<^verbatim>\<open>TRACK::GetBestInsertPoint( BOARD* aPcb )\<close>, declared at
  class_track.h:169. The specification has it return the first entity with a strictly
  greater net code, or "end" if the net code is the maximum or the chain is empty; the
  header comment says "the next item after the last item having my net code" and
  "if the best insertion point is the end of list, the returned value is NULL". \<open>this\<close> is
  the track to insert, the list is the chain of the board.
\<close>

fun GetBestInsertPoint :: "'a TRACK_scheme \<Rightarrow> 'b TRACK_scheme list \<Rightarrow> nat option" where
  "GetBestInsertPoint this [] = None"
| "GetBestInsertPoint this (t # ts) =
     (if GetNetCode this < GetNetCode t then Some 0
      else map_option Suc (GetBestInsertPoint this ts))"

text \<open>
  Modelled from the spec: the board container's "insert at position", which the header does
  not contain. The new entity goes before the entity at the given position ("the track to
  insert must be inserted before the insertion point"), and at the end of the chain for
  \<^verbatim>\<open>NULL\<close>.
\<close>

definition Insert_before :: "'a \<Rightarrow> nat option \<Rightarrow> 'a list \<Rightarrow> 'a list" where
  "Insert_before t pos c = (case pos of None \<Rightarrow> c @ [t] | Some i \<Rightarrow> take i c @ t # drop i c)"

text \<open>Modelled from the spec: an insertion "at a net-code-respecting position", the position
  being the one \<^verbatim>\<open>GetBestInsertPoint\<close> chooses.\<close>

definition Add_track :: "'a TRACK_scheme \<Rightarrow> 'a TRACK_scheme list \<Rightarrow> 'a TRACK_scheme list" where
  "Add_track t c = Insert_before t (GetBestInsertPoint t c) c"

text \<open>Modelled from the spec: the board container's "remove", the detachment of the entity at
  a position from the chain. A position outside the chain leaves the chain as it is.\<close>

definition Remove_at :: "nat \<Rightarrow> 'a list \<Rightarrow> 'a list" where
  "Remove_at i c = take i c @ drop (Suc i) c"

text \<open>Modelled from the spec: "any sequence of insertions and removals" on the chain, the
  operations being applied from left to right.\<close>

datatype 'a chain_op = Insert "'a TRACK_scheme" | Remove nat

fun apply_op :: "'a TRACK_scheme list \<Rightarrow> 'a chain_op \<Rightarrow> 'a TRACK_scheme list" where
  "apply_op c (Insert t) = Add_track t c"
| "apply_op c (Remove i) = Remove_at i c"

definition run_ops :: "'a chain_op list \<Rightarrow> 'a TRACK_scheme list \<Rightarrow> 'a TRACK_scheme list" where
  "run_ops ops c = foldl apply_op c ops"

subsection \<open>Nearness to the end points\<close>

text \<open>Modelled from the spec: the flag word \<^verbatim>\<open>STATUS_FLAGS\<close>, declared outside the header. The
  values of the two flags \<^verbatim>\<open>STARTPOINT\<close> and \<^verbatim>\<open>ENDPOINT\<close> are not in the header either: they
  are parameters of \<open>IsPointOnEnds\<close>.\<close>

type_synonym STATUS_FLAGS = "32 word"

text \<open>Modelled from the spec: "within" a distance, for points with integer coordinates. The
  Euclidean distance of \<open>p\<close> and \<open>q\<close> is at most \<open>d\<close> exactly when \<open>d\<close> is not negative and the
  square of the distance is at most the square of \<open>d\<close>.\<close>

definition sq_dist :: "wxPoint \<Rightarrow> wxPoint \<Rightarrow> int" where
  "sq_dist p q = (sint (fst p) - sint (fst q))\<^sup>2 + (sint (snd p) - sint (snd q))\<^sup>2"

definition is_near :: "wxPoint \<Rightarrow> int \<Rightarrow> wxPoint \<Rightarrow> bool" where
  "is_near p d q = (0 \<le> d \<and> sq_dist p q \<le> d\<^sup>2)"

text \<open>Modelled from the spec: "near means within minDist (or, when minDist is negative, within
  half the segment's width)"; the header comment has
  \<^verbatim>\<open>if min_dist < 0: min_dist = track_width/2\<close>, a division of C++ integers, which truncates.\<close>

definition effective_dist :: "'a TRACK_scheme \<Rightarrow> cint \<Rightarrow> int" where
  "effective_dist t min_dist =
     (if min_dist <s 0 then sint (m_Width t) sdiv 2 else sint min_dist)"

text \<open>
  Modelled from the spec: the body of
  \<^verbatim>\<open>STATUS_FLAGS TRACK::IsPointOnEnds( const wxPoint& point, int min_dist = 0 )\<close>, declared at
  class_track.h:221: "returns a bitmask indicating proximity to the start endpoint, end
  endpoint, both, or neither".
\<close>

definition IsPointOnEnds ::
  "STATUS_FLAGS \<Rightarrow> STATUS_FLAGS \<Rightarrow> 'a TRACK_scheme \<Rightarrow> wxPoint \<Rightarrow> cint \<Rightarrow> STATUS_FLAGS" where
  "IsPointOnEnds STARTPOINT ENDPOINT t point min_dist =
     (let d = effective_dist t min_dist
      in (if is_near point d (m_Start t) then STARTPOINT else 0)
         OR (if is_near point d (m_End t) then ENDPOINT else 0))"

subsection \<open>The two ends of a run of segments\<close>





text \<open>Modelled from the spec: turning a segment round, the exchange of its two end points.
  The header comment of \<^verbatim>\<open>GetEndSegments\<close> promises
  "(*StartTrack)->m_Start coordinate is the beginning of the track" and
  "(*EndTrack)->m_End coordinate is the end of the track"; a boundary segment that is stored
  the other way round meets this only after it has been turned.\<close>

definition swap_ends :: "'a TRACK_scheme \<Rightarrow> 'a TRACK_scheme" where
  "swap_ends t = t\<lparr>m_Start := m_End t, m_End := m_Start t\<rparr>"







section \<open>Concrete objects\<close>

definition a_trace :: TRACK where
  "a_trace = \<lparr>m_StructType = PCB_TRACE_T, Pnext = None, m_NetCode = 0, m_Width = 10,
     m_Start = (0, 0), m_End = (100, 0)\<rparr>"

definition a_via :: VIA where
  "a_via = \<lparr>m_StructType = PCB_VIA_T, Pnext = None, m_NetCode = 0, m_Width = 60,
     m_Start = (5, 5), m_End = (5, 5), m_BottomLayer = 31, m_ViaType = VIA_THROUGH,
     m_Drill = 30\<rparr>"

text \<open>A list of five items at the addresses 0 to 4: trace, trace, via, trace, via.\<close>

definition demo_store :: "unit store" where
  "demo_store =
     (\<lambda>a. a_trace)
       (0 := a_trace\<lparr>Pnext := Some 1\<rparr>,
        1 := a_trace\<lparr>Pnext := Some 2\<rparr>,
        2 := a_trace\<lparr>m_StructType := PCB_VIA_T, Pnext := Some 3\<rparr>,
        3 := a_trace\<lparr>Pnext := Some 4\<rparr>,
        4 := a_trace\<lparr>m_StructType := PCB_VIA_T, Pnext := None\<rparr>)"

text \<open>A chain with the net codes 1, 1, 3, 3, 5, and a sequence of operations on it.\<close>

definition net_trace :: "int \<Rightarrow> TRACK" where
  "net_trace n = a_trace\<lparr>m_NetCode := n\<rparr>"

definition demo_chain_list :: "TRACK list" where
  "demo_chain_list = [net_trace 1, net_trace 1, net_trace 3, net_trace 3, net_trace 5]"

definition demo_ops :: "unit chain_op list" where
  "demo_ops = [Insert (net_trace 3), Remove 0, Insert (net_trace 0), Insert (net_trace 9),
     Remove 7, Remove 3]"

text \<open>The segment from (0,0) to (100,0) with a given width.\<close>

definition wide_trace :: "cint \<Rightarrow> TRACK" where
  "wide_trace w = a_trace\<lparr>m_Width := w, m_Start := (0, 0), m_End := (100, 0)\<rparr>"









section \<open>Properties of the code of the header\<close>

subsection \<open>Position of a trace and of a via\<close>

text \<open>
  Claim C3. For every point \<open>p\<close>: on a trace, \<^verbatim>\<open>SetPosition(p)\<close> followed by
  \<^verbatim>\<open>GetPosition()\<close> returns \<open>p\<close>; on a via, \<^verbatim>\<open>SetPosition(p)\<close> sets both endpoints to the
  same point, so \<^verbatim>\<open>GetStart()\<close>, \<^verbatim>\<open>GetEnd()\<close> and \<^verbatim>\<open>GetPosition()\<close> all return \<open>p\<close>
  afterwards.
\<close>

theorem SetPosition_GetPosition:
  "TRACK_GetPosition (TRACK_SetPosition t p) = p
   \<and> GetStart (VIA_SetPosition v p) = p
   \<and> GetEnd (VIA_SetPosition v p) = p
   \<and> VIA_GetPosition (VIA_SetPosition v p) = p"
  by (simp add: TRACK_GetPosition_def TRACK_SetPosition_def GetStart_def GetEnd_def
      VIA_SetPosition_def VIA_GetPosition_def)

theorem SetPosition_GetPosition_witness:
  "TRACK_GetPosition (TRACK_SetPosition a_trace (7, 9)) = (7, 9)
   \<and> GetStart (VIA_SetPosition a_via (7, 9)) = (7, 9)
   \<and> GetEnd (VIA_SetPosition a_via (7, 9)) = (7, 9)
   \<and> VIA_GetPosition (VIA_SetPosition a_via (7, 9)) = (7, 9)"
  by (rule SetPosition_GetPosition)

subsection \<open>Default drill of a via\<close>

text \<open>
  Claim C4. For every via, \<^verbatim>\<open>IsDrillDefault()\<close> returns true if and only if the stored drill
  value is less than or equal to 0, not only for the sentinel -1: it is true after
  \<^verbatim>\<open>SetDrillDefault()\<close>, which stores \<^verbatim>\<open>UNDEFINED_DRILL_DIAMETER\<close> = -1, and it is also true
  for a stored drill of 0 or of any other non-positive value (and false for a positive one).
\<close>

theorem IsDrillDefault_iff:
  "(IsDrillDefault v \<longleftrightarrow> sint (GetDrill v) \<le> 0)
   \<and> sint (GetDrill (SetDrillDefault v)) = - 1
   \<and> IsDrillDefault (SetDrillDefault v)
   \<and> IsDrillDefault (SetDrill v 0)
   \<and> (IsDrillDefault (SetDrill v d) \<longleftrightarrow> sint d \<le> 0)"
  by (simp add: IsDrillDefault_def GetDrill_def SetDrillDefault_def SetDrill_def
      UNDEFINED_DRILL_DIAMETER_def word_sle_eq)

theorem IsDrillDefault_iff_witness:
  "IsDrillDefault (SetDrill a_via (- 7)) \<and> \<not> IsDrillDefault (SetDrill a_via 30)
   \<and> \<not> IsDrillDefault a_via \<and> IsDrillDefault (SetDrillDefault a_via)
   \<and> IsDrillDefault (SetDrill a_via 0)"
  using IsDrillDefault_iff [of a_via "- 7"] IsDrillDefault_iff [of a_via 30]
  by (simp add: a_via_def GetDrill_def)

subsection \<open>Selecting an end point\<close>

text \<open>
  Claim C9. \<^verbatim>\<open>GetEndPoint\<close> is a total function that never fails: for every track,
  \<^verbatim>\<open>GetEndPoint(ENDPOINT_START)\<close> returns the start point, and \<^verbatim>\<open>GetEndPoint(s)\<close> returns the
  end point for every other selector value \<open>s\<close>, \<^verbatim>\<open>ENDPOINT_END\<close> included; no selector value,
  in range or out of range, reaches an error.
\<close>

theorem GetEndPoint_total:
  "GetEndPoint t ENDPOINT_START = GetStart t
   \<and> GetEndPoint t ENDPOINT_END = GetEnd t
   \<and> (\<forall>s. s \<noteq> ENDPOINT_START \<longrightarrow> GetEndPoint t s = GetEnd t)
   \<and> (\<forall>s. GetEndPoint t s = GetStart t \<or> GetEndPoint t s = GetEnd t)"
  by (simp add: GetEndPoint_def ENDPOINT_START_def ENDPOINT_END_def GetStart_def GetEnd_def)

theorem GetEndPoint_total_witness:
  "GetEndPoint a_trace ENDPOINT_START = (0, 0)
   \<and> GetEndPoint a_trace ENDPOINT_END = (100, 0)
   \<and> GetEndPoint a_trace 2 = (100, 0)
   \<and> GetEndPoint a_trace (- 1) = (100, 0)"
  using GetEndPoint_total [of a_trace]
  by (simp add: a_trace_def ENDPOINT_START_def GetStart_def GetEnd_def)

subsection \<open>Scanning a list for the first via\<close>

lemma find_None_all: "find P xs = None \<longleftrightarrow> (\<forall>u\<in>set xs. \<not> P u)"
  by (auto simp: find_None_iff)

lemma find_Some_split:
  "find P xs = Some x \<longleftrightarrow>
     (\<exists>pre post. xs = pre @ x # post \<and> P x \<and> (\<forall>u\<in>set pre. \<not> P u))"
proof (induction xs)
  case Nil
  then show ?case by simp
next
  case (Cons y ys)
  show ?case
  proof (cases "P y")
    case True
    have "(\<exists>pre post. y # ys = pre @ x # post \<and> P x \<and> (\<forall>u\<in>set pre. \<not> P u)) \<longleftrightarrow> y = x"
    proof
      assume "\<exists>pre post. y # ys = pre @ x # post \<and> P x \<and> (\<forall>u\<in>set pre. \<not> P u)"
      then obtain pre post where e: "y # ys = pre @ x # post" and n: "\<forall>u\<in>set pre. \<not> P u"
        by blast
      show "y = x"
      proof (cases pre)
        case Nil
        with e show ?thesis by simp
      next
        case (Cons p ps)
        with e n True show ?thesis by auto
      qed
    next
      assume "y = x"
      with True have "y # ys = [] @ x # ys \<and> P x \<and> (\<forall>u\<in>set []. \<not> P u)" by simp
      then show "\<exists>pre post. y # ys = pre @ x # post \<and> P x \<and> (\<forall>u\<in>set pre. \<not> P u)"
        by blast
    qed
    with True show ?thesis by simp
  next
    case False
    have "(\<exists>pre post. y # ys = pre @ x # post \<and> P x \<and> (\<forall>u\<in>set pre. \<not> P u)) \<longleftrightarrow>
          (\<exists>pre post. ys = pre @ x # post \<and> P x \<and> (\<forall>u\<in>set pre. \<not> P u))"
    proof
      assume "\<exists>pre post. y # ys = pre @ x # post \<and> P x \<and> (\<forall>u\<in>set pre. \<not> P u)"
      then obtain pre post where e: "y # ys = pre @ x # post" and px: "P x"
        and n: "\<forall>u\<in>set pre. \<not> P u"
        by blast
      show "\<exists>pre post. ys = pre @ x # post \<and> P x \<and> (\<forall>u\<in>set pre. \<not> P u)"
      proof (cases pre)
        case Nil
        with e px False show ?thesis by simp
      next
        case (Cons p ps)
        with e n px have "ys = ps @ x # post \<and> P x \<and> (\<forall>u\<in>set ps. \<not> P u)" by simp
        then show ?thesis by blast
      qed
    next
      assume "\<exists>pre post. ys = pre @ x # post \<and> P x \<and> (\<forall>u\<in>set pre. \<not> P u)"
      then obtain pre post where "ys = pre @ x # post" "P x" "\<forall>u\<in>set pre. \<not> P u"
        by blast
      with False have "y # ys = (y # pre) @ x # post \<and> P x \<and> (\<forall>u\<in>set (y # pre). \<not> P u)"
        by simp
      then show "\<exists>pre post. y # ys = pre @ x # post \<and> P x \<and> (\<forall>u\<in>set pre. \<not> P u)"
        by blast
    qed
    with False Cons.IH show ?thesis by simp
  qed
qed

lemma two_splits:
  assumes e: "pre @ s # post = pre' @ r # post'"
    and s: "s \<notin> set pre'" and r: "r \<notin> set pre"
  shows "r = s"
proof -
  consider "length pre < length pre'" | "length pre' < length pre" | "length pre = length pre'"
    by linarith
  then show ?thesis
  proof cases
    case 1
    have "(pre @ s # post) ! length pre = s" by simp
    with e have "(pre' @ r # post') ! length pre = s" by simp
    with 1 have "pre' ! length pre = s" by (simp add: nth_append)
    with 1 have "s \<in> set pre'" using nth_mem by blast
    with s show ?thesis by simp
  next
    case 2
    have "(pre' @ r # post') ! length pre' = r" by simp
    with e have "(pre @ s # post) ! length pre' = r" by simp
    with 2 have "pre ! length pre' = r" by (simp add: nth_append)
    with 2 have "r \<in> set pre" using nth_mem by blast
    with r show ?thesis by simp
  next
    case 3
    with e show ?thesis by simp
  qed
qed

text \<open>A well-formed list is determined by its first pointer and visits no address twice.\<close>

lemma chain_from_unique:
  "chain_from h p as \<Longrightarrow> chain_from h p bs \<Longrightarrow> as = bs"
proof (induction as arbitrary: p bs)
  case Nil
  then show ?case by (cases bs) auto
next
  case (Cons a as)
  then show ?case by (cases bs) auto
qed

lemma chain_from_suffix:
  "chain_from h p (as @ b # bs) \<Longrightarrow> chain_from h (Some b) (b # bs)"
  by (induction as arbitrary: p) auto

lemma chain_from_distinct: "chain_from h p as \<Longrightarrow> distinct as"
proof (induction as arbitrary: p)
  case Nil
  then show ?case by simp
next
  case (Cons a as)
  have "a \<notin> set as"
  proof
    assume "a \<in> set as"
    then obtain us vs where as: "as = us @ a # vs" by (auto simp: in_set_conv_decomp)
    from Cons.prems have c1: "chain_from h (Some a) (a # as)" by simp
    from Cons.prems as have "chain_from h (Next (h a)) (us @ a # vs)" by simp
    then have c2: "chain_from h (Some a) (a # vs)" by (rule chain_from_suffix)
    from chain_from_unique [OF c1 c2] as show False by simp
  qed
  with Cons show ?case by auto
qed

text \<open>On a well-formed list the loop ends, at the first item that is the stop point or a
  via, or at \<^verbatim>\<open>NULL\<close> when there is none.\<close>

lemma GetFirstVia_while_chain:
  "chain_from h aTrk as \<Longrightarrow>
   GetFirstVia_while h aTrk aStopPoint =
     Some (find (\<lambda>a. Some a = aStopPoint \<or> Type (h a) = PCB_VIA_T) as)"
proof (induction as arbitrary: aTrk)
  case Nil
  then show ?case by (subst GetFirstVia_while.simps) simp
next
  case (Cons a as)
  then show ?case by (subst GetFirstVia_while.simps) auto
qed

lemma GetFirstVia_chain:
  assumes "chain_from h aTrk as"
  shows "GetFirstVia h aTrk aStopPoint =
     Some (case find (\<lambda>a. Some a = aStopPoint \<or> Type (h a) = PCB_VIA_T) as of
             None \<Rightarrow> None
           | Some a \<Rightarrow> if Type (h a) = PCB_VIA_T then Some a else None)"
  by (simp add: GetFirstVia_def GetFirstVia_while_chain [OF assms] split: option.split)

lemma GetFirstVia_Some_iff:
  assumes "chain_from h aTrk as"
  shows "GetFirstVia h aTrk aStopPoint = Some (Some v) \<longleftrightarrow>
     (\<exists>pre post. as = pre @ v # post \<and> Type (h v) = PCB_VIA_T
        \<and> (\<forall>u\<in>set pre. Type (h u) \<noteq> PCB_VIA_T \<and> Some u \<noteq> aStopPoint))"
proof -
  let ?P = "\<lambda>a. Some a = aStopPoint \<or> Type (h a) = PCB_VIA_T"
  have "GetFirstVia h aTrk aStopPoint = Some (Some v) \<longleftrightarrow>
        find ?P as = Some v \<and> Type (h v) = PCB_VIA_T"
    by (auto simp: GetFirstVia_chain [OF assms] split: option.splits if_splits)
  also have "\<dots> \<longleftrightarrow> (\<exists>pre post. as = pre @ v # post \<and> Type (h v) = PCB_VIA_T
        \<and> (\<forall>u\<in>set pre. Type (h u) \<noteq> PCB_VIA_T \<and> Some u \<noteq> aStopPoint))"
    unfolding find_Some_split by blast
  finally show ?thesis .
qed

lemma GetFirstVia_None_iff:
  assumes "chain_from h aTrk as"
  shows "GetFirstVia h aTrk aStopPoint = Some None \<longleftrightarrow>
     (\<forall>a\<in>set as. Type (h a) \<noteq> PCB_VIA_T)
     \<or> (\<exists>pre s post. as = pre @ s # post \<and> aStopPoint = Some s \<and> Type (h s) \<noteq> PCB_VIA_T
          \<and> (\<forall>u\<in>set pre. Type (h u) \<noteq> PCB_VIA_T))"
    (is "?L \<longleftrightarrow> ?A \<or> ?B")
proof -
  let ?P = "\<lambda>a. Some a = aStopPoint \<or> Type (h a) = PCB_VIA_T"
  have L: "?L \<longleftrightarrow> find ?P as = None \<or> (\<exists>s. find ?P as = Some s \<and> Type (h s) \<noteq> PCB_VIA_T)"
    by (auto simp: GetFirstVia_chain [OF assms] split: option.splits if_splits)
  show ?thesis
  proof
    assume ?L
    with L have "find ?P as = None \<or> (\<exists>s. find ?P as = Some s \<and> Type (h s) \<noteq> PCB_VIA_T)"
      by simp
    then show "?A \<or> ?B"
    proof
      assume "find ?P as = None"
      then have ?A by (simp add: find_None_all)
      then show ?thesis ..
    next
      assume "\<exists>s. find ?P as = Some s \<and> Type (h s) \<noteq> PCB_VIA_T"
      then obtain s where "find ?P as = Some s" and "Type (h s) \<noteq> PCB_VIA_T"
        by (elim exE conjE)
      then have ?B unfolding find_Some_split by auto
      then show ?thesis ..
    qed
  next
    assume "?A \<or> ?B"
    then show ?L
    proof
      assume a: ?A
      show ?L
      proof (cases "find ?P as")
        case None
        with L show ?thesis by simp
      next
        case (Some s)
        then have "s \<in> set as" unfolding find_Some_split by auto
        with a have "Type (h s) \<noteq> PCB_VIA_T" by simp
        with Some L show ?thesis by simp
      qed
    next
      assume ?B
      then obtain pre s post where as: "as = pre @ s # post" and st: "aStopPoint = Some s"
        and ns: "Type (h s) \<noteq> PCB_VIA_T" and np: "\<forall>u\<in>set pre. Type (h u) \<noteq> PCB_VIA_T"
        by blast
      show ?L
      proof (cases "find ?P as")
        case None
        with L show ?thesis by simp
      next
        case (Some r)
        then obtain pre' post' where e: "as = pre' @ r # post'" and pr: "?P r"
          and n': "\<forall>u\<in>set pre'. \<not> ?P u"
          unfolding find_Some_split by blast
        have "Type (h r) \<noteq> PCB_VIA_T"
        proof (cases "Some r = aStopPoint")
          case True
          with st ns show ?thesis by simp
        next
          case False
          with pr have via: "Type (h r) = PCB_VIA_T" by simp
          from st n' have "s \<notin> set pre'" by auto
          moreover from via np have "r \<notin> set pre" by auto
          moreover from via ns have "r \<noteq> s" by auto
          ultimately have False using two_splits [of pre s post pre' r post'] as e by simp
          then show ?thesis ..
        qed
        with Some L show ?thesis by simp
      qed
    qed
  qed
qed

lemma demo_chain: "chain_from demo_store (Some 0) [0, 1, 2, 3, 4]"
  by (simp add: demo_store_def Next_def)

text \<open>
  Claim C10, as the code has it. For every well-formed track list and optional stop item,
  \<^verbatim>\<open>GetFirstVia\<close> returns, and it returns the first via at or after the start pointer unless
  the stop item comes strictly before that via: the stop item itself is returned when it
  is a via and no via precedes it. It returns \<^verbatim>\<open>NULL\<close> when the start pointer is \<^verbatim>\<open>NULL\<close>,
  when the list holds no via at all, and when the stop item is not a via and no via precedes
  it; in no other case.
\<close>

theorem GetFirstVia_first_via_up_to_stop:
  assumes "chain_from h aTrk as"
  shows "(\<exists>r. GetFirstVia h aTrk aStopPoint = Some r)
   \<and> (aTrk = None \<longrightarrow> GetFirstVia h aTrk aStopPoint = Some None)
   \<and> (\<forall>v. GetFirstVia h aTrk aStopPoint = Some (Some v) \<longleftrightarrow>
        (\<exists>pre post. as = pre @ v # post \<and> Type (h v) = PCB_VIA_T
           \<and> (\<forall>u\<in>set pre. Type (h u) \<noteq> PCB_VIA_T \<and> Some u \<noteq> aStopPoint)))
   \<and> (GetFirstVia h aTrk aStopPoint = Some None \<longleftrightarrow>
        (\<forall>a\<in>set as. Type (h a) \<noteq> PCB_VIA_T)
        \<or> (\<exists>pre s post. as = pre @ s # post \<and> aStopPoint = Some s
             \<and> Type (h s) \<noteq> PCB_VIA_T \<and> (\<forall>u\<in>set pre. Type (h u) \<noteq> PCB_VIA_T)))"
proof (intro conjI allI impI)
  show "\<exists>r. GetFirstVia h aTrk aStopPoint = Some r"
    by (simp add: GetFirstVia_chain [OF assms])
next
  assume "aTrk = None"
  with assms have "as = []" by (cases as) auto
  with assms have c: "chain_from h aTrk []" by simp
  show "GetFirstVia h aTrk aStopPoint = Some None"
    by (simp add: GetFirstVia_chain [OF c])
next
  fix v
  show "GetFirstVia h aTrk aStopPoint = Some (Some v) \<longleftrightarrow>
        (\<exists>pre post. as = pre @ v # post \<and> Type (h v) = PCB_VIA_T
           \<and> (\<forall>u\<in>set pre. Type (h u) \<noteq> PCB_VIA_T \<and> Some u \<noteq> aStopPoint))"
    by (rule GetFirstVia_Some_iff [OF assms])
next
  show "GetFirstVia h aTrk aStopPoint = Some None \<longleftrightarrow>
        (\<forall>a\<in>set as. Type (h a) \<noteq> PCB_VIA_T)
        \<or> (\<exists>pre s post. as = pre @ s # post \<and> aStopPoint = Some s
             \<and> Type (h s) \<noteq> PCB_VIA_T \<and> (\<forall>u\<in>set pre. Type (h u) \<noteq> PCB_VIA_T))"
    by (rule GetFirstVia_None_iff [OF assms])
qed

text \<open>On the list trace, trace, via, trace, via: the first via is found; a trace as stop
  point before it gives \<^verbatim>\<open>NULL\<close>; so does a \<^verbatim>\<open>NULL\<close> start.\<close>

theorem GetFirstVia_first_via_up_to_stop_witness:
  "chain_from demo_store (Some 0) [0, 1, 2, 3, 4]
   \<and> GetFirstVia demo_store (Some 0) None = Some (Some 2)
   \<and> GetFirstVia demo_store (Some 0) (Some 1) = Some None
   \<and> GetFirstVia demo_store None (Some 1) = Some None"
proof -
  have t: "Type (demo_store 0) \<noteq> PCB_VIA_T" "Type (demo_store 1) \<noteq> PCB_VIA_T"
    "Type (demo_store 2) = PCB_VIA_T"
    by (simp_all add: demo_store_def Type_def a_trace_def)
  have "[0, 1, 2, 3, 4] = [0, 1] @ 2 # [3, 4] \<and> Type (demo_store 2) = PCB_VIA_T
      \<and> (\<forall>u\<in>set [0, 1]. Type (demo_store u) \<noteq> PCB_VIA_T \<and> Some u \<noteq> (None :: addr option))"
    using t by simp
  then have "\<exists>pre post. [0, 1, 2, 3, 4] = pre @ 2 # post \<and> Type (demo_store 2) = PCB_VIA_T
      \<and> (\<forall>u\<in>set pre. Type (demo_store u) \<noteq> PCB_VIA_T \<and> Some u \<noteq> (None :: addr option))"
    by blast
  with GetFirstVia_first_via_up_to_stop [OF demo_chain, of None]
  have a: "GetFirstVia demo_store (Some 0) None = Some (Some 2)" by blast
  have "[0, 1, 2, 3, 4] = [0] @ 1 # [2, 3, 4] \<and> Some (1 :: addr) = Some 1
      \<and> Type (demo_store 1) \<noteq> PCB_VIA_T \<and> (\<forall>u\<in>set [0]. Type (demo_store u) \<noteq> PCB_VIA_T)"
    using t by simp
  then have "\<exists>pre s post. [0, 1, 2, 3, 4] = pre @ s # post \<and> Some (1 :: addr) = Some s
      \<and> Type (demo_store s) \<noteq> PCB_VIA_T \<and> (\<forall>u\<in>set pre. Type (demo_store u) \<noteq> PCB_VIA_T)"
    by blast
  with GetFirstVia_first_via_up_to_stop [OF demo_chain, of "Some 1"]
  have b: "GetFirstVia demo_store (Some 0) (Some 1) = Some None" by blast
  have "chain_from demo_store None []" by simp
  from GetFirstVia_first_via_up_to_stop [OF this, of "Some 1"]
  have c: "GetFirstVia demo_store None (Some 1) = Some None" by blast
  from demo_chain a b c show ?thesis by simp
qed

text \<open>
  Claim C10, as it is stated, says that the stop item is never returned, even when it is
  itself a via. On the same list with the via at address 2 as stop point, the loop halts at
  address 2 because of the stop point, the test after the loop finds a via there, and the
  stop item is returned.
\<close>

theorem GetFirstVia_returns_stop_via:
  "GetFirstVia demo_store (Some 0) (Some 2) = Some (Some 2)
   \<and> Type (demo_store 2) = PCB_VIA_T"
  by (simp add: GetFirstVia_def GetFirstVia_while.simps demo_store_def Type_def Next_def
      a_trace_def)

section \<open>Properties of the modelled operations\<close>

subsection \<open>The insertion point\<close>

lemma GetBestInsertPoint_Some_iff:
  "GetBestInsertPoint this c = Some i \<longleftrightarrow>
     i < length c \<and> GetNetCode this < GetNetCode (c ! i)
     \<and> (\<forall>j<i. GetNetCode (c ! j) \<le> GetNetCode this)"
proof (induction c arbitrary: i)
  case Nil
  then show ?case by simp
next
  case (Cons t ts)
  show ?case
  proof (cases "GetNetCode this < GetNetCode t")
    case True
    then show ?thesis by (cases i) auto
  next
    case False
    show ?thesis
    proof (cases i)
      case 0
      with False show ?thesis by auto
    next
      case (Suc k)
      have "(\<forall>j<Suc k. GetNetCode ((t # ts) ! j) \<le> GetNetCode this) \<longleftrightarrow>
            (\<forall>j<k. GetNetCode (ts ! j) \<le> GetNetCode this)"
        using False by (auto simp: less_Suc_eq_0_disj)
      with False Suc Cons.IH [of k] show ?thesis by auto
    qed
  qed
qed

lemma GetBestInsertPoint_None_iff:
  "GetBestInsertPoint this c = None \<longleftrightarrow> (\<forall>t\<in>set c. GetNetCode t \<le> GetNetCode this)"
  by (induction c) auto

lemma chain_sorted_nth:
  "chain_sorted c \<longleftrightarrow> (\<forall>i j. i < j \<and> j < length c \<longrightarrow> GetNetCode (c ! i) \<le> GetNetCode (c ! j))"
  by (auto simp: chain_sorted_def sorted_wrt_iff_nth_less)

lemma chain_sorted_append:
  "chain_sorted (xs @ ys) \<longleftrightarrow>
     chain_sorted xs \<and> chain_sorted ys
     \<and> (\<forall>a\<in>set xs. \<forall>b\<in>set ys. GetNetCode a \<le> GetNetCode b)"
  by (simp add: chain_sorted_def sorted_wrt_append)

lemma chain_sorted_Cons:
  "chain_sorted (x # ys) \<longleftrightarrow> chain_sorted ys \<and> (\<forall>b\<in>set ys. GetNetCode x \<le> GetNetCode b)"
  by (auto simp: chain_sorted_def)

lemma chain_sorted_Nil: "chain_sorted []"
  by (simp add: chain_sorted_def)

lemma chain_sorted_Add_track:
  assumes "chain_sorted c"
  shows "chain_sorted (Add_track t c)"
proof (cases "GetBestInsertPoint t c")
  case None
  then have "\<forall>a\<in>set c. GetNetCode a \<le> GetNetCode t"
    by (simp add: GetBestInsertPoint_None_iff)
  with assms None show ?thesis
    by (simp add: Add_track_def Insert_before_def chain_sorted_append chain_sorted_Cons
        chain_sorted_Nil)
next
  case (Some i)
  then have i: "i < length c" and gt: "GetNetCode t < GetNetCode (c ! i)"
    and le: "\<forall>j<i. GetNetCode (c ! j) \<le> GetNetCode t"
    by (simp_all add: GetBestInsertPoint_Some_iff)
  from assms have "chain_sorted (take i c @ drop i c)" by simp
  then have s: "chain_sorted (take i c)" "chain_sorted (drop i c)"
    unfolding chain_sorted_append by blast+
  have a: "\<forall>a\<in>set (take i c). GetNetCode a \<le> GetNetCode t"
  proof
    fix a assume "a \<in> set (take i c)"
    then obtain j where "j < length (take i c)" "take i c ! j = a"
      by (auto simp: in_set_conv_nth)
    with le show "GetNetCode a \<le> GetNetCode t" by auto
  qed
  have b: "\<forall>b\<in>set (drop i c). GetNetCode t \<le> GetNetCode b"
  proof
    fix b assume "b \<in> set (drop i c)"
    then obtain j where j: "j < length (drop i c)" "drop i c ! j = b"
      by (auto simp: in_set_conv_nth)
    then have "b = c ! (i + j)" "i + j < length c" by auto
    with assms have "GetNetCode (c ! i) \<le> GetNetCode b"
      by (cases j) (auto simp: chain_sorted_nth)
    with gt show "GetNetCode t \<le> GetNetCode b" by simp
  qed
  from a b have "\<forall>a\<in>set (take i c). \<forall>b\<in>set (drop i c). GetNetCode a \<le> GetNetCode b"
    by force
  with s a b Some show ?thesis
    by (simp add: Add_track_def Insert_before_def chain_sorted_append chain_sorted_Cons)
qed

lemma chain_sorted_Remove_at:
  assumes "chain_sorted c"
  shows "chain_sorted (Remove_at i c)"
proof -
  from assms have "chain_sorted (take i c @ drop i c)" by simp
  then have t: "chain_sorted (take i c)"
    and ab: "\<forall>a\<in>set (take i c). \<forall>b\<in>set (drop i c). GetNetCode a \<le> GetNetCode b"
    unfolding chain_sorted_append by blast+
  from assms have d: "chain_sorted (drop (Suc i) c)"
    by (simp add: chain_sorted_def sorted_wrt_drop)
  have "set (drop (Suc i) c) \<subseteq> set (drop i c)"
    by (rule set_drop_subset_set_drop) simp
  with ab have "\<forall>a\<in>set (take i c). \<forall>b\<in>set (drop (Suc i) c). GetNetCode a \<le> GetNetCode b"
    by blast
  with t d show ?thesis by (simp add: Remove_at_def chain_sorted_append)
qed

lemma chain_sorted_apply_op: "chain_sorted c \<Longrightarrow> chain_sorted (apply_op c op)"
  by (cases op) (simp_all add: chain_sorted_Add_track chain_sorted_Remove_at)

lemma chain_sorted_run_ops: "chain_sorted c \<Longrightarrow> chain_sorted (run_ops ops c)"
  unfolding run_ops_def
  by (induction ops arbitrary: c) (simp_all add: chain_sorted_apply_op)

lemma GetBestInsertPoint_after_last_same:
  assumes s: "chain_sorted c" and j: "j < length c"
    and e: "GetNetCode (c ! j) = GetNetCode this"
    and l: "\<forall>k. j < k \<and> k < length c \<longrightarrow> GetNetCode (c ! k) \<noteq> GetNetCode this"
  shows "GetBestInsertPoint this c = (if Suc j < length c then Some (Suc j) else None)"
proof (cases "Suc j < length c")
  case True
  from s True have "GetNetCode (c ! j) \<le> GetNetCode (c ! Suc j)"
    by (simp add: chain_sorted_nth)
  moreover from l True have "GetNetCode (c ! Suc j) \<noteq> GetNetCode this" by simp
  ultimately have gt: "GetNetCode this < GetNetCode (c ! Suc j)" using e by simp
  have "\<forall>k<Suc j. GetNetCode (c ! k) \<le> GetNetCode this"
  proof (intro allI impI)
    fix k assume "k < Suc j"
    then consider "k = j" | "k < j" by linarith
    then show "GetNetCode (c ! k) \<le> GetNetCode this"
    proof cases
      case 1
      with e show ?thesis by simp
    next
      case 2
      with s j have "GetNetCode (c ! k) \<le> GetNetCode (c ! j)" by (simp add: chain_sorted_nth)
      with e show ?thesis by simp
    qed
  qed
  with True gt show ?thesis by (simp add: GetBestInsertPoint_Some_iff)
next
  case False
  have "\<forall>t\<in>set c. GetNetCode t \<le> GetNetCode this"
  proof
    fix t assume "t \<in> set c"
    then obtain k where k: "k < length c" "c ! k = t" by (auto simp: in_set_conv_nth)
    with False j consider "k = j" | "k < j" by linarith
    then show "GetNetCode t \<le> GetNetCode this"
    proof cases
      case 1
      with e k show ?thesis by simp
    next
      case 2
      with s j have "GetNetCode (c ! k) \<le> GetNetCode (c ! j)" by (simp add: chain_sorted_nth)
      with e k show ?thesis by simp
    qed
  qed
  with False show ?thesis by (simp add: GetBestInsertPoint_None_iff)
qed

lemma demo_sorted: "chain_sorted demo_chain_list"
  by (simp add: chain_sorted_def demo_chain_list_def net_trace_def GetNetCode_def)

text \<open>
  Claim C2. For every chain sorted ascending by net code and every net code \<open>N\<close> (the net
  code of the track to insert), \<^verbatim>\<open>GetBestInsertPoint\<close> returns the first entity of the
  chain whose net code is strictly greater than \<open>N\<close>; this is the entity immediately after
  the last entity that shares the net code \<open>N\<close>, when there is one. It returns \<^verbatim>\<open>NULL\<close>, the
  insertion at the end, exactly when no entity has a net code greater than \<open>N\<close>: in
  particular when \<open>N\<close> is the maximum net code present, and when the chain is empty.
\<close>

theorem GetBestInsertPoint_first_greater:
  assumes "chain_sorted c"
  shows "(\<forall>i. GetBestInsertPoint this c = Some i \<longleftrightarrow>
            i < length c \<and> GetNetCode this < GetNetCode (c ! i)
            \<and> (\<forall>j<i. \<not> GetNetCode this < GetNetCode (c ! j)))
   \<and> (GetBestInsertPoint this c = None \<longleftrightarrow> (\<forall>t\<in>set c. \<not> GetNetCode this < GetNetCode t))
   \<and> (\<forall>j. j < length c \<and> GetNetCode (c ! j) = GetNetCode this
          \<and> (\<forall>k. j < k \<and> k < length c \<longrightarrow> GetNetCode (c ! k) \<noteq> GetNetCode this)
        \<longrightarrow> GetBestInsertPoint this c = (if Suc j < length c then Some (Suc j) else None))
   \<and> (c = [] \<longrightarrow> GetBestInsertPoint this c = None)
   \<and> ((\<forall>t\<in>set c. GetNetCode t \<le> GetNetCode this) \<longrightarrow> GetBestInsertPoint this c = None)"
proof (intro conjI allI impI)
  fix i
  show "GetBestInsertPoint this c = Some i \<longleftrightarrow>
            i < length c \<and> GetNetCode this < GetNetCode (c ! i)
            \<and> (\<forall>j<i. \<not> GetNetCode this < GetNetCode (c ! j))"
    by (simp add: GetBestInsertPoint_Some_iff not_less)
next
  show "GetBestInsertPoint this c = None \<longleftrightarrow> (\<forall>t\<in>set c. \<not> GetNetCode this < GetNetCode t)"
    by (simp add: GetBestInsertPoint_None_iff not_less)
next
  fix j
  assume "j < length c \<and> GetNetCode (c ! j) = GetNetCode this
          \<and> (\<forall>k. j < k \<and> k < length c \<longrightarrow> GetNetCode (c ! k) \<noteq> GetNetCode this)"
  with assms show "GetBestInsertPoint this c = (if Suc j < length c then Some (Suc j) else None)"
    using GetBestInsertPoint_after_last_same [of c j this] by blast
next
  assume "c = []"
  then show "GetBestInsertPoint this c = None" by simp
next
  assume "\<forall>t\<in>set c. GetNetCode t \<le> GetNetCode this"
  then show "GetBestInsertPoint this c = None" by (simp add: GetBestInsertPoint_None_iff)
qed

text \<open>On the net codes 1, 1, 3, 3, 5: the insertion point for 3 is the entity of net code 5
  at position 4, for 5 it is the end, for 0 it is the first entity.\<close>

theorem GetBestInsertPoint_first_greater_witness:
  "chain_sorted demo_chain_list
   \<and> map GetNetCode demo_chain_list = [1, 1, 3, 3, 5]
   \<and> GetBestInsertPoint (net_trace 3) demo_chain_list = Some 4
   \<and> GetBestInsertPoint (net_trace 5) demo_chain_list = None
   \<and> GetBestInsertPoint (net_trace 0) demo_chain_list = Some 0"
proof -
  have n: "map GetNetCode demo_chain_list = [1, 1, 3, 3, 5]"
    by (simp add: demo_chain_list_def net_trace_def GetNetCode_def)
  have l: "length demo_chain_list = 5" by (simp add: demo_chain_list_def)
  have nth: "GetNetCode (demo_chain_list ! 0) = 1" "GetNetCode (demo_chain_list ! 3) = 3"
    "GetNetCode (demo_chain_list ! 4) = 5"
    by (simp_all add: demo_chain_list_def net_trace_def GetNetCode_def)
  have this3: "GetNetCode (net_trace 3) = 3" "GetNetCode (net_trace 5) = 5"
    "GetNetCode (net_trace 0) = 0"
    by (simp_all add: net_trace_def GetNetCode_def)
  note T = GetBestInsertPoint_first_greater [OF demo_sorted]
  have k: "\<forall>k. 3 < k \<and> k < length demo_chain_list \<longrightarrow>
     GetNetCode (demo_chain_list ! k) \<noteq> GetNetCode (net_trace 3)"
  proof (intro allI impI)
    fix k :: nat assume "3 < k \<and> k < length demo_chain_list"
    with l have "k = 4" by simp
    with nth this3 show "GetNetCode (demo_chain_list ! k) \<noteq> GetNetCode (net_trace 3)" by simp
  qed
  from T [of "net_trace 3"]
  have "3 < length demo_chain_list
        \<and> GetNetCode (demo_chain_list ! 3) = GetNetCode (net_trace 3)
        \<and> (\<forall>k. 3 < k \<and> k < length demo_chain_list \<longrightarrow>
              GetNetCode (demo_chain_list ! k) \<noteq> GetNetCode (net_trace 3))
      \<longrightarrow> GetBestInsertPoint (net_trace 3) demo_chain_list =
            (if Suc 3 < length demo_chain_list then Some (Suc 3) else None)"
    by blast
  with k l nth this3
  have "GetBestInsertPoint (net_trace 3) demo_chain_list =
            (if Suc 3 < length demo_chain_list then Some (Suc 3) else None)"
    by simp
  with l have a: "GetBestInsertPoint (net_trace 3) demo_chain_list = Some 4" by simp
  have "\<forall>t\<in>set demo_chain_list. GetNetCode t \<le> GetNetCode (net_trace 5)"
    by (simp add: demo_chain_list_def net_trace_def GetNetCode_def)
  with T [of "net_trace 5"]
  have b: "GetBestInsertPoint (net_trace 5) demo_chain_list = None" by blast
  have "0 < length demo_chain_list
      \<and> GetNetCode (net_trace 0) < GetNetCode (demo_chain_list ! 0)
      \<and> (\<forall>j<0. \<not> GetNetCode (net_trace 0) < GetNetCode (demo_chain_list ! j))"
    using l nth this3 by simp
  with T [of "net_trace 0"]
  have c: "GetBestInsertPoint (net_trace 0) demo_chain_list = Some 0" by blast
  from demo_sorted n a b c show ?thesis by simp
qed

subsection \<open>The sort order is kept by every operation\<close>

lemma Add_track_position:
  "\<exists>i\<le>length c. Add_track t c = take i c @ t # drop i c"
proof (cases "GetBestInsertPoint t c")
  case None
  then have "Add_track t c = take (length c) c @ t # drop (length c) c"
    by (simp add: Add_track_def Insert_before_def)
  then show ?thesis by blast
next
  case (Some i)
  then have "i < length c" by (simp add: GetBestInsertPoint_Some_iff)
  with Some have "i \<le> length c \<and> Add_track t c = take i c @ t # drop i c"
    by (simp add: Add_track_def Insert_before_def)
  then show ?thesis by blast
qed

text \<open>
  Claim C1. In every chain of the board the entities are always sorted ascending by net
  code: an insertion at the position chosen by \<^verbatim>\<open>GetBestInsertPoint\<close> and a removal each turn
  a sorted chain into a sorted chain, so after any sequence of such insertions and removals
  every entity that precedes another has a net code less than or equal to the later one's.
  The order is not restored by sorting afterwards: an insertion puts the new entity between
  the entities of the chain and leaves them in their order.
\<close>

theorem chain_always_sorted:
  assumes "chain_sorted c"
  shows "chain_sorted (Add_track t c)
   \<and> chain_sorted (Remove_at i c)
   \<and> chain_sorted (run_ops ops c)
   \<and> (\<forall>i j. i < j \<and> j < length (run_ops ops c) \<longrightarrow>
         GetNetCode (run_ops ops c ! i) \<le> GetNetCode (run_ops ops c ! j))
   \<and> (\<exists>k\<le>length c. Add_track t c = take k c @ t # drop k c)"
proof -
  from assms have "chain_sorted (run_ops ops c)" by (rule chain_sorted_run_ops)
  then have "\<forall>i j. i < j \<and> j < length (run_ops ops c) \<longrightarrow>
         GetNetCode (run_ops ops c ! i) \<le> GetNetCode (run_ops ops c ! j)"
    by (simp add: chain_sorted_nth)
  with assms show ?thesis
    by (simp add: chain_sorted_Add_track chain_sorted_Remove_at chain_sorted_run_ops
        Add_track_position)
qed

text \<open>Six operations on the chain 1, 1, 3, 3, 5 (one of them the removal at a position
  outside the chain) give 0, 1, 3, 3, 5, 9; three insertions into the empty chain give a
  sorted chain.\<close>

theorem chain_always_sorted_witness:
  "chain_sorted ([] :: TRACK list)
   \<and> map GetNetCode (run_ops demo_ops demo_chain_list) = [0, 1, 3, 3, 5, 9]
   \<and> chain_sorted (run_ops demo_ops demo_chain_list)
   \<and> chain_sorted (run_ops [Insert (net_trace 4), Insert (net_trace 2), Insert (net_trace 4)] [])
   \<and> chain_sorted (Add_track (net_trace 2) demo_chain_list)
   \<and> chain_sorted (Remove_at 2 demo_chain_list)"
proof -
  have e: "chain_sorted ([] :: TRACK list)" by (simp add: chain_sorted_def)
  have "map GetNetCode (run_ops demo_ops demo_chain_list) = [0, 1, 3, 3, 5, 9]"
    by (simp add: demo_ops_def demo_chain_list_def net_trace_def GetNetCode_def run_ops_def
        Add_track_def Insert_before_def Remove_at_def)
  with e chain_always_sorted [OF demo_sorted, of "net_trace 2" 2 demo_ops]
    chain_always_sorted [OF e, of "net_trace 2" 2
      "[Insert (net_trace 4), Insert (net_trace 2), Insert (net_trace 4)]"]
  show ?thesis by simp
qed

subsection \<open>Nearness to the end points\<close>

lemma flags_and:
  fixes S E :: "'a::len word"
  assumes "S AND E = 0"
  shows "(S OR E) AND S = S" "(S OR E) AND E = E" "E AND S = 0"
  using assms by (simp_all add: word_bw_comms word_ao_absorbs word_bw_lcs bit.conj_disj_distrib2)

text \<open>
  Claim C8. For every segment, point \<open>p\<close> and \<^verbatim>\<open>min_dist\<close>, \<^verbatim>\<open>IsPointOnEnds\<close> returns a bitmask
  whose start bit is set if and only if \<open>p\<close> lies within the effective distance of the start
  point, and whose end bit is set if and only if \<open>p\<close> lies within it of the end point: both
  bits when \<open>p\<close> is near both, 0 when it is near neither. The effective distance is
  \<^verbatim>\<open>min_dist\<close> when that is not negative, and half the width of the segment when it is
  negative. With \<^verbatim>\<open>min_dist\<close> = -1 on the segment from (0,0) to (100,0), the point (3,0) is near
  the start when the width is 10, and not near the start when the width is 2. The two flags
  are any two non-zero flag words without a common bit.
\<close>

theorem IsPointOnEnds_bits:
  assumes "STARTPOINT \<noteq> 0" and "ENDPOINT \<noteq> 0" and "STARTPOINT AND ENDPOINT = 0"
  shows "(IsPointOnEnds STARTPOINT ENDPOINT t p min_dist AND STARTPOINT \<noteq> 0
           \<longleftrightarrow> is_near p (effective_dist t min_dist) (GetStart t))
   \<and> (IsPointOnEnds STARTPOINT ENDPOINT t p min_dist AND ENDPOINT \<noteq> 0
           \<longleftrightarrow> is_near p (effective_dist t min_dist) (GetEnd t))
   \<and> (is_near p (effective_dist t min_dist) (GetStart t)
        \<and> is_near p (effective_dist t min_dist) (GetEnd t)
        \<longrightarrow> IsPointOnEnds STARTPOINT ENDPOINT t p min_dist = STARTPOINT OR ENDPOINT)
   \<and> (\<not> is_near p (effective_dist t min_dist) (GetStart t)
        \<and> \<not> is_near p (effective_dist t min_dist) (GetEnd t)
        \<longrightarrow> IsPointOnEnds STARTPOINT ENDPOINT t p min_dist = 0)
   \<and> (0 \<le> sint min_dist \<longrightarrow> effective_dist t min_dist = sint min_dist)
   \<and> (sint min_dist < 0 \<longrightarrow> effective_dist t min_dist = sint (GetWidth t) sdiv 2)
   \<and> IsPointOnEnds STARTPOINT ENDPOINT (wide_trace 10) (3, 0) (- 1) = STARTPOINT
   \<and> IsPointOnEnds STARTPOINT ENDPOINT (wide_trace 2) (3, 0) (- 1) = 0"
proof -
  have ex: "IsPointOnEnds STARTPOINT ENDPOINT (wide_trace 10) (3, 0) (- 1) = STARTPOINT"
    "IsPointOnEnds STARTPOINT ENDPOINT (wide_trace 2) (3, 0) (- 1) = 0"
    by (simp_all add: IsPointOnEnds_def effective_dist_def is_near_def sq_dist_def
        wide_trace_def signed_divide_int_def)
  from assms flags_and [OF assms(3)]
  have "(IsPointOnEnds STARTPOINT ENDPOINT t p min_dist AND STARTPOINT \<noteq> 0
           \<longleftrightarrow> is_near p (effective_dist t min_dist) (GetStart t))
   \<and> (IsPointOnEnds STARTPOINT ENDPOINT t p min_dist AND ENDPOINT \<noteq> 0
           \<longleftrightarrow> is_near p (effective_dist t min_dist) (GetEnd t))
   \<and> (is_near p (effective_dist t min_dist) (GetStart t)
        \<and> is_near p (effective_dist t min_dist) (GetEnd t)
        \<longrightarrow> IsPointOnEnds STARTPOINT ENDPOINT t p min_dist = STARTPOINT OR ENDPOINT)
   \<and> (\<not> is_near p (effective_dist t min_dist) (GetStart t)
        \<and> \<not> is_near p (effective_dist t min_dist) (GetEnd t)
        \<longrightarrow> IsPointOnEnds STARTPOINT ENDPOINT t p min_dist = 0)"
    by (auto simp: IsPointOnEnds_def Let_def GetStart_def GetEnd_def)
  moreover have "(0 \<le> sint min_dist \<longrightarrow> effective_dist t min_dist = sint min_dist)
   \<and> (sint min_dist < 0 \<longrightarrow> effective_dist t min_dist = sint (GetWidth t) sdiv 2)"
    by (simp add: effective_dist_def word_sless_alt GetWidth_def)
  ultimately show ?thesis using ex by simp
qed

text \<open>With the flags 1 and 2: the two cases of the claim, a point near both ends for a large
  \<^verbatim>\<open>min_dist\<close>, and the point (97,4), at distance 5 of the end point (100,0).\<close>

theorem IsPointOnEnds_bits_witness:
  "(1 :: STATUS_FLAGS) \<noteq> 0 \<and> (2 :: STATUS_FLAGS) \<noteq> 0 \<and> (1 :: STATUS_FLAGS) AND 2 = 0
   \<and> effective_dist (wide_trace 10) (- 1) = 5
   \<and> effective_dist (wide_trace 2) (- 1) = 1
   \<and> IsPointOnEnds 1 2 (wide_trace 10) (3, 0) (- 1) AND 1 \<noteq> 0
   \<and> IsPointOnEnds 1 2 (wide_trace 2) (3, 0) (- 1) AND 1 = 0
   \<and> IsPointOnEnds 1 2 (wide_trace 2) (3, 0) 200 = 3
   \<and> IsPointOnEnds 1 2 (wide_trace 10) (97, 4) 5 = 2"
proof -
  have f: "(1 :: STATUS_FLAGS) \<noteq> 0" "(2 :: STATUS_FLAGS) \<noteq> 0" "(1 :: STATUS_FLAGS) AND 2 = 0"
    by simp_all
  have d: "effective_dist (wide_trace 10) (- 1) = 5" "effective_dist (wide_trace 2) (- 1) = 1"
    "effective_dist (wide_trace 2) 200 = 200" "effective_dist (wide_trace 10) 5 = 5"
    by (simp_all add: effective_dist_def wide_trace_def signed_divide_int_def word_sless_alt)
  have n: "is_near (3, 0) 5 (GetStart (wide_trace 10))"
    "\<not> is_near (3, 0) 1 (GetStart (wide_trace 2))"
    "is_near (3, 0) 200 (GetStart (wide_trace 2))" "is_near (3, 0) 200 (GetEnd (wide_trace 2))"
    "\<not> is_near (97, 4) 5 (GetStart (wide_trace 10))" "is_near (97, 4) 5 (GetEnd (wide_trace 10))"
    by (simp_all add: is_near_def sq_dist_def wide_trace_def GetStart_def GetEnd_def)
  note T = IsPointOnEnds_bits [OF f]
  from T [of "wide_trace 10" "(3, 0)" "- 1"] d n
  have a: "IsPointOnEnds 1 2 (wide_trace 10) (3, 0) (- 1) AND 1 \<noteq> 0" by simp
  from T [of "wide_trace 2" "(3, 0)" "- 1"] d n
  have b: "IsPointOnEnds 1 2 (wide_trace 2) (3, 0) (- 1) AND 1 = 0" by simp
  from T [of "wide_trace 2" "(3, 0)" 200] d n
  have c: "IsPointOnEnds 1 2 (wide_trace 2) (3, 0) 200 = 3" by simp
  have e: "IsPointOnEnds 1 2 (wide_trace 10) (97, 4) 5 = 2"
    by (simp add: IsPointOnEnds_def effective_dist_def is_near_def sq_dist_def wide_trace_def
        word_sless_alt)
  from f d a b c e show ?thesis by simp
qed

subsection \<open>The two ends of a run of segments\<close>




lemma GetStart_swap_ends [simp]: "GetStart (swap_ends t) = GetEnd t"
  by (simp add: swap_ends_def GetStart_def GetEnd_def)

lemma GetEnd_swap_ends [simp]: "GetEnd (swap_ends t) = GetStart t"
  by (simp add: swap_ends_def GetStart_def GetEnd_def)





























end
